theory Spec2Isabelle
  imports Main "HOL-Library.Word" "HOL-Library.Sublist"
begin

section \<open>Collaborator types of \<^verbatim>\<open>MemLocation.h\<close>\<close>

text \<open>
  The header \<^verbatim>\<open>include/swift/SIL/MemLocation.h\<close> uses the value, type, projection-path and
  alias-analysis classes of the compiler without defining them.  They are modelled as far as
  the header reads them.
\<close>

datatype SILValueCategory = Object | Address

text \<open>
  Modelled from the spec: the static type of a root or of a projection is an opaque type
  (here a type id) that is either an address or an object type; \<^verbatim>\<open>SILType::getObjectType\<close>,
  which \<^verbatim>\<open>MemLocation::getType\<close> calls, is missing from the sources and yields the object type.
\<close>

record SILType =
  TypeId :: nat
  Category :: SILValueCategory

definition getObjectType :: "SILType \<Rightarrow> SILType" where
  "getObjectType T = T\<lparr>Category := Object\<rparr>"

text \<open>
  Modelled from the spec: \<^verbatim>\<open>SILValue\<close> is missing from the sources.  A root is an opaque handle
  with identity equality (the defining operation, \<open>None\<close> for the null value that the default
  constructor \<^verbatim>\<open>SILValue()\<close> gives), a result-slot index and a static type.
\<close>

record SILValue =
  Def :: "nat option"
  ResultNumber :: nat
  ValueType :: SILType

definition SILValue_default :: SILValue where
  "SILValue_default = \<lparr>Def = None, ResultNumber = 0, ValueType = \<lparr>TypeId = 0, Category = Object\<rparr>\<rparr>"

text \<open>The conversion of a value to \<^verbatim>\<open>bool\<close> that \<^verbatim>\<open>isValid\<close> uses: the value is not null.\<close>

definition SILValue_bool :: "SILValue \<Rightarrow> bool" where
  "SILValue_bool v = (Def v \<noteq> None)"

text \<open>
  Modelled from the spec: \<^verbatim>\<open>Projection\<close> and \<^verbatim>\<open>ProjectionPath\<close> are missing from the sources.  A
  projection is a selector kind, an index and the resulting type; a path is a sequence of
  projections.  \<^verbatim>\<open>MemLocation::getType\<close> reads the type of the represented object from
  \<^verbatim>\<open>Path.front()\<close>, so the front of the stored sequence is the projection applied last (the
  one nearest to the leaf), and the list below is in that storage order: its head is
  \<^verbatim>\<open>front()\<close>, its last element is the projection applied to the root.
\<close>

datatype ProjectionKind = Field | TupleIndex | EnumPayload | Dereference

record Projection =
  PKind :: ProjectionKind
  Index :: nat
  PType :: SILType

type_synonym ProjectionPath = "Projection list"

text \<open>
  Modelled from the spec: \<^verbatim>\<open>ProjectionPath::hasNonEmptySymmetricDifference\<close> is true iff neither
  path is a prefix of the other, where a prefix is an initial part of the selections counted
  from the root, that is a suffix of the stored sequence.
\<close>

definition hasNonEmptySymmetricDifference :: "ProjectionPath \<Rightarrow> ProjectionPath \<Rightarrow> bool" where
  "hasNonEmptySymmetricDifference P Q = (\<not> suffix P Q \<and> \<not> suffix Q P)"

text \<open>Modelled from the spec: the alias collaborator answers a query on two roots.\<close>

datatype AliasResult = NoAlias | MayAlias | MustAlias

type_synonym AliasAnalysis = "SILValue \<Rightarrow> SILValue \<Rightarrow> AliasResult"

text \<open>
  \<^verbatim>\<open>llvm::hash_combine\<close> and the path's \<^verbatim>\<open>hash_value\<close> are library functions outside the
  repository; the hash functions of the header take them as parameters.  A \<^verbatim>\<open>hash_code\<close> is a
  \<^verbatim>\<open>size_t\<close>; \<^verbatim>\<open>DenseMapInfo::getHashValue\<close> returns it as \<^verbatim>\<open>unsigned\<close>.
\<close>

type_synonym hash_code = "64 word"

record Hashing =
  hash_combine3 :: "nat option \<Rightarrow> nat \<Rightarrow> SILType \<Rightarrow> hash_code"
  hash_combine2 :: "hash_code \<Rightarrow> hash_code \<Rightarrow> hash_code"
  path_hash_value :: "ProjectionPath \<Rightarrow> hash_code"

text \<open>What goes wrong in a call: reading an absent \<^verbatim>\<open>Optional\<close>, and the failures the spec names.\<close>

datatype error = NoValue | StructuralError | PreconditionViolation

section \<open>The class \<^verbatim>\<open>MemLocation\<close>\<close>

datatype KeyKind = EmptyKey | TombstoneKey | NormalKey

record MemLocation =
  Base :: SILValue
  Kind :: KeyKind
  Path :: "ProjectionPath option"

text \<open>The constructors \<^verbatim>\<open>MemLocation()\<close> and \<^verbatim>\<open>MemLocation(B, P, Kind)\<close>.\<close>

definition MemLocation_default :: MemLocation where
  "MemLocation_default = \<lparr>Base = SILValue_default, Kind = NormalKey, Path = None\<rparr>"

definition MemLocation_of :: "SILValue \<Rightarrow> ProjectionPath \<Rightarrow> KeyKind \<Rightarrow> MemLocation" where
  "MemLocation_of B P K = \<lparr>Base = B, Kind = K, Path = Some P\<rparr>"

definition setKind :: "KeyKind \<Rightarrow> MemLocation \<Rightarrow> MemLocation" where
  "setKind K L = L\<lparr>Kind := K\<rparr>"

text \<open>The copy constructor, statement by statement; \<^verbatim>\<open>X.append\<close> on the empty \<^verbatim>\<open>X\<close> copies the path.\<close>

definition MemLocation_copy :: "MemLocation \<Rightarrow> MemLocation" where
  "MemLocation_copy RHS =
     (let this = \<lparr>Base = Base RHS, Kind = Kind RHS, Path = None\<rparr>
      in case Path RHS of
           None \<Rightarrow> this
         | Some P \<Rightarrow> (let X = [] @ P in this\<lparr>Path := Some X\<rparr>))"

text \<open>
  \<^verbatim>\<open>operator=\<close> works on two objects that may be the same one, so it is modelled on a store
  of objects: \<open>this\<close> and \<open>rhs\<close> are addresses, every read of \<^verbatim>\<open>RHS\<close> is a read of the store as
  it is at that statement.
\<close>

type_synonym addr = nat
type_synonym store = "addr \<Rightarrow> MemLocation"

definition assign :: "addr \<Rightarrow> addr \<Rightarrow> store \<Rightarrow> store" where
  "assign this rhs s =
     (let s1 = s(this := (s this)\<lparr>Base := Base (s rhs)\<rparr>);
          s2 = s1(this := (s1 this)\<lparr>Path := None\<rparr>);
          s3 = s2(this := (s2 this)\<lparr>Kind := Kind (s2 rhs)\<rparr>)
      in case Path (s3 rhs) of
           None \<Rightarrow> s3
         | Some P \<Rightarrow> (let X = [] @ P in s3(this := (s3 this)\<lparr>Path := Some X\<rparr>)))"

definition getHashCode :: "Hashing \<Rightarrow> MemLocation \<Rightarrow> hash_code" where
  "getHashCode H L =
     (let HC = hash_combine3 H (Def (Base L)) (ResultNumber (Base L)) (ValueType (Base L))
      in case Path L of
           None \<Rightarrow> HC
         | Some P \<Rightarrow> hash_combine2 H HC (path_hash_value H P))"

definition getType :: "MemLocation \<Rightarrow> error + SILType" where
  "getType L =
     (case Path L of
        None \<Rightarrow> Inl NoValue
      | Some P \<Rightarrow>
          if P = [] then Inr (getObjectType (ValueType (Base L)))
          else Inr (getObjectType (PType (hd P))))"

definition isValid :: "MemLocation \<Rightarrow> bool" where
  "isValid L = (SILValue_bool (Base L) \<and> Path L \<noteq> None)"

definition hasNonEmptySymmetricPathDifference :: "MemLocation \<Rightarrow> MemLocation \<Rightarrow> error + bool" where
  "hasNonEmptySymmetricPathDifference L RHS =
     (case Path RHS of
        None \<Rightarrow> Inl NoValue
      | Some P \<Rightarrow>
          (case Path L of
             None \<Rightarrow> Inl NoValue
           | Some Q \<Rightarrow> Inr (hasNonEmptySymmetricDifference Q P)))"

text \<open>
  Modelled from the spec: \<^verbatim>\<open>hasIdenticalProjectionPath\<close> is declared in the header and defined
  elsewhere.  Two paths are identical when they are pointwise equal, two empty paths included;
  a location whose path is absent is uninitialised and has no path to be identical to.
\<close>

definition hasIdenticalProjectionPath :: "MemLocation \<Rightarrow> MemLocation \<Rightarrow> bool" where
  "hasIdenticalProjectionPath L RHS =
     (case (Path L, Path RHS) of
        (Some P, Some Q) \<Rightarrow> P = Q
      | _ \<Rightarrow> False)"

text \<open>\<^verbatim>\<open>operator==\<close>.\<close>

definition MemLocation_eq :: "MemLocation \<Rightarrow> MemLocation \<Rightarrow> bool" where
  "MemLocation_eq L RHS =
     (if Kind L \<noteq> Kind RHS then False
      else if Base L \<noteq> Base RHS then False
      else if \<not> hasIdenticalProjectionPath L RHS then False
      else True)"

definition reset :: "MemLocation \<Rightarrow> MemLocation" where
  "reset L = L\<lparr>Base := SILValue_default, Path := None, Kind := NormalKey\<rparr>"

text \<open>The free function \<^verbatim>\<open>hash_value(const MemLocation &)\<close> and \<^verbatim>\<open>DenseMapInfo<MemLocation>\<close>.\<close>

definition hash_value :: "Hashing \<Rightarrow> MemLocation \<Rightarrow> hash_code" where
  "hash_value H L = hash_combine3 H (Def (Base L)) (ResultNumber (Base L)) (ValueType (Base L))"

definition getEmptyKey :: MemLocation where
  "getEmptyKey = setKind EmptyKey MemLocation_default"

definition getTombstoneKey :: MemLocation where
  "getTombstoneKey = setKind TombstoneKey MemLocation_default"

definition getHashValue :: "Hashing \<Rightarrow> MemLocation \<Rightarrow> 32 word" where
  "getHashValue H Loc = ucast (hash_value H Loc)"

definition isEqual :: "MemLocation \<Rightarrow> MemLocation \<Rightarrow> bool" where
  "isEqual LHS RHS =
     (if Kind LHS = EmptyKey \<and> Kind RHS = EmptyKey then True
      else if Kind LHS = TombstoneKey \<and> Kind RHS = TombstoneKey then True
      else MemLocation_eq LHS RHS)"

section \<open>The alias classifier\<close>

text \<open>
  Modelled from the spec: \<^verbatim>\<open>isMayAliasMemLocation\<close> and \<^verbatim>\<open>isMustAliasMemLocation\<close> are declared in
  the header and defined elsewhere.  May-alias is false when the root query reports
  \<open>NoAlias\<close>; otherwise it is false only when the paths are proven disjoint, that is when the
  header's \<^verbatim>\<open>hasNonEmptySymmetricPathDifference\<close> answers true, and it is true in every other
  case: any uncertainty, a path that is absent included, resolves to true.  Must-alias is
  true only when the root query reports \<open>MustAlias\<close> and the paths are identical; a mere
  \<open>MayAlias\<close> gives false.
\<close>

definition isMayAliasMemLocation :: "AliasAnalysis \<Rightarrow> MemLocation \<Rightarrow> MemLocation \<Rightarrow> bool" where
  "isMayAliasMemLocation AA L RHS =
     (if AA (Base L) (Base RHS) = NoAlias then False
      else if hasNonEmptySymmetricPathDifference L RHS = Inr True then False
      else True)"

definition isMustAliasMemLocation :: "AliasAnalysis \<Rightarrow> MemLocation \<Rightarrow> MemLocation \<Rightarrow> bool" where
  "isMustAliasMemLocation AA L RHS =
     (if AA (Base L) (Base RHS) \<noteq> MustAlias then False
      else if \<not> hasIdenticalProjectionPath L RHS then False
      else True)"

section \<open>Decomposition and recomposition\<close>

text \<open>
  Modelled from the spec: the aggregate type-introspection collaborator (the \<^verbatim>\<open>SILModule\<close>
  argument of the header's functions) gives, for a type, the ordered list of its immediate
  fields as projections (selector and field type); the list is empty for a leaf type.
\<close>

type_synonym TypeOracle = "SILType \<Rightarrow> Projection list"

text \<open>
  Modelled from the spec: \<^verbatim>\<open>getFirstLevelMemLocations\<close> is declared in the header and defined
  elsewhere.  It asks the type collaborator for the immediate fields of the location's static
  type (the header's \<^verbatim>\<open>getType\<close>) and produces, for each field, the location whose path is the
  location's path with one more projection for that field.  Since \<^verbatim>\<open>getType\<close> reads the
  represented object's type at the front of the path, the new projection stands at the front.
\<close>

definition getFirstLevelMemLocations :: "TypeOracle \<Rightarrow> MemLocation \<Rightarrow> error + MemLocation list" where
  "getFirstLevelMemLocations Mod L =
     (case getType L of
        Inl e \<Rightarrow> Inl e
      | Inr Ty \<Rightarrow>
          (case Path L of
             None \<Rightarrow> Inl NoValue
           | Some P \<Rightarrow> Inr (map (\<lambda>X. L\<lparr>Path := Some (X # P)\<rparr>) (Mod Ty))))"

fun collect :: "(error + 'a list) list \<Rightarrow> error + 'a list" where
  "collect [] = Inr []"
| "collect (R # Rs) =
     (case R of
        Inl e \<Rightarrow> Inl e
      | Inr Xs \<Rightarrow> (case collect Rs of Inl e \<Rightarrow> Inl e | Inr Ys \<Rightarrow> Inr (Xs @ Ys)))"

text \<open>
  Modelled from the spec: \<^verbatim>\<open>expand\<close> is declared in the header and defined elsewhere.  It
  applies the first-level decomposition again and again until every produced location is a
  leaf.  The spec asks that an unbounded nesting makes the operation fail rather than loop,
  by a depth guard: \<open>guard\<close> is that bound, and running out of it is the structural error.
\<close>

fun expand :: "nat \<Rightarrow> TypeOracle \<Rightarrow> MemLocation \<Rightarrow> error + MemLocation list" where
  "expand 0 Mod L = Inl StructuralError"
| "expand (Suc guard) Mod L =
     (case getFirstLevelMemLocations Mod L of
        Inl e \<Rightarrow> Inl e
      | Inr [] \<Rightarrow> Inr [L]
      | Inr (C # Cs) \<Rightarrow> collect (map (expand guard Mod) (C # Cs)))"

text \<open>
  Modelled from the spec: \<^verbatim>\<open>reduce\<close> is declared in the header, as
  \<^verbatim>\<open>reduce(MemLocation &Base, SILModule *Mod, MemLocationSet &Locs)\<close> for ``a set of locations
  derived from the same base'', and defined elsewhere.  The locations are grouped by their
  parent (the location whose path lacks the projection applied last); whenever the group of
  a parent has as many members as the type collaborator reports fields for the parent's type,
  the group is replaced by the parent; this is repeated until no merge applies.  The
  locations that have a parent among the locations derived from \<open>Base\<close> are those strictly
  below \<open>Base\<close>: same root, and the path of \<open>Base\<close> a proper initial part (from the root) of
  theirs.  A location of another root in the set is the contract violation of the spec.
\<close>

definition derivedFrom :: "MemLocation \<Rightarrow> MemLocation \<Rightarrow> bool" where
  "derivedFrom B X =
     (Base X = Base B \<and>
      (case (Path B, Path X) of
         (Some P, Some Q) \<Rightarrow> suffix P Q \<and> P \<noteq> Q
       | _ \<Rightarrow> False))"

definition parentLocation :: "MemLocation \<Rightarrow> MemLocation" where
  "parentLocation X = X\<lparr>Path := map_option tl (Path X)\<rparr>"

definition siblings :: "MemLocation \<Rightarrow> MemLocation set \<Rightarrow> MemLocation \<Rightarrow> MemLocation set" where
  "siblings B Locs P = {X \<in> Locs. derivedFrom B X \<and> parentLocation X = P}"

definition completeParents :: "TypeOracle \<Rightarrow> MemLocation \<Rightarrow> MemLocation set \<Rightarrow> MemLocation set" where
  "completeParents Mod B Locs =
     {P \<in> parentLocation ` {X \<in> Locs. derivedFrom B X}.
        case getType P of
          Inl e \<Rightarrow> False
        | Inr Ty \<Rightarrow> card (siblings B Locs P) = length (Mod Ty)}"

definition reduceStep :: "TypeOracle \<Rightarrow> MemLocation \<Rightarrow> MemLocation set \<Rightarrow> MemLocation set" where
  "reduceStep Mod B Locs =
     {X \<in> Locs. \<not> (derivedFrom B X \<and> parentLocation X \<in> completeParents Mod B Locs)}
       \<union> completeParents Mod B Locs"

partial_function (option) reduceLoop :: "TypeOracle \<Rightarrow> MemLocation \<Rightarrow> MemLocation set \<Rightarrow> MemLocation set option" where
  "reduceLoop Mod B Locs =
     (let Locs' = reduceStep Mod B Locs
      in if Locs' = Locs then Some Locs else reduceLoop Mod B Locs')"

declare reduceLoop.simps [code]

definition reduce :: "TypeOracle \<Rightarrow> MemLocation \<Rightarrow> MemLocation set \<Rightarrow> (error + MemLocation set) option" where
  "reduce Mod B Locs =
     (if \<exists>X \<in> Locs. Base X \<noteq> Base B then Some (Inl PreconditionViolation)
      else map_option Inr (reduceLoop Mod B Locs))"

subsection \<open>Notions the properties of decomposition are stated with\<close>

text \<open>
  The nesting of a type is finite and acyclic when it is exhausted within some number of
  levels: \<open>nestingWithin Mod d Ty\<close> says that every chain of fields from \<open>Ty\<close> reaches a leaf
  type after at most \<open>d\<close> steps.  A type is fully decomposable within \<open>d\<close> levels when, in
  addition, each aggregate on the way lists every field once.
\<close>

fun nestingWithin :: "TypeOracle \<Rightarrow> nat \<Rightarrow> SILType \<Rightarrow> bool" where
  "nestingWithin Mod 0 Ty = (Mod Ty = [])"
| "nestingWithin Mod (Suc d) Ty =
     (\<forall>X \<in> set (Mod Ty). nestingWithin Mod d (getObjectType (PType X)))"

fun fullyDecomposable :: "TypeOracle \<Rightarrow> nat \<Rightarrow> SILType \<Rightarrow> bool" where
  "fullyDecomposable Mod 0 Ty = (Mod Ty = [])"
| "fullyDecomposable Mod (Suc d) Ty =
     (distinct (Mod Ty) \<and>
      (\<forall>X \<in> set (Mod Ty). fullyDecomposable Mod d (getObjectType (PType X))))"

definition finiteNesting :: "TypeOracle \<Rightarrow> nat \<Rightarrow> MemLocation \<Rightarrow> bool" where
  "finiteNesting Mod d L = (case getType L of Inl e \<Rightarrow> False | Inr Ty \<Rightarrow> nestingWithin Mod d Ty)"

definition fullyDecomposableLocation :: "TypeOracle \<Rightarrow> nat \<Rightarrow> MemLocation \<Rightarrow> bool" where
  "fullyDecomposableLocation Mod d L =
     (case getType L of Inl e \<Rightarrow> False | Inr Ty \<Rightarrow> fullyDecomposable Mod d Ty)"

text \<open>
  The sub-objects of a location: the location itself and, with every sub-object, each of its
  first-level locations.  The extent of a location is made of its sub-objects that are leaves.
\<close>

inductive_set subobjects :: "TypeOracle \<Rightarrow> MemLocation \<Rightarrow> MemLocation set"
  for Mod :: TypeOracle and L :: MemLocation where
  self: "L \<in> subobjects Mod L"
| part: "X \<in> subobjects Mod L \<Longrightarrow> getFirstLevelMemLocations Mod X = Inr Cs \<Longrightarrow> C \<in> set Cs
         \<Longrightarrow> C \<in> subobjects Mod L"

definition isLeaf :: "TypeOracle \<Rightarrow> MemLocation \<Rightarrow> bool" where
  "isLeaf Mod X = (getFirstLevelMemLocations Mod X = Inr [])"

subsection \<open>Paths relative to a location\<close>

text \<open>
  The locations below a location \<open>L\<close> are \<open>L\<close> with further projections in front of its path;
  \<open>node L Q\<close> is the one reached by the projections \<open>Q\<close> (the head of \<open>Q\<close> applied last), its
  static type is \<open>nodeType Ty Q\<close> when \<open>Ty\<close> is the type of \<open>L\<close>, and \<open>treePaths Mod Ty\<close> are the
  \<open>Q\<close> that follow fields of the types on the way.
\<close>

definition node :: "MemLocation \<Rightarrow> ProjectionPath \<Rightarrow> MemLocation" where
  "node L Q = L\<lparr>Path := map_option (\<lambda>P. Q @ P) (Path L)\<rparr>"

definition nodeType :: "SILType \<Rightarrow> ProjectionPath \<Rightarrow> SILType" where
  "nodeType Ty Q = (if Q = [] then Ty else getObjectType (PType (hd Q)))"

inductive_set treePaths :: "TypeOracle \<Rightarrow> SILType \<Rightarrow> ProjectionPath set"
  for Mod :: TypeOracle and Ty :: SILType where
  top: "[] \<in> treePaths Mod Ty"
| down: "Q \<in> treePaths Mod Ty \<Longrightarrow> X \<in> set (Mod (nodeType Ty Q)) \<Longrightarrow> X # Q \<in> treePaths Mod Ty"

text \<open>
  The cut of the tree at height \<open>k\<close>: the topmost nodes whose nesting is exhausted within \<open>k\<close>
  levels.  The cut at height \<open>0\<close> consists of the leaves.
\<close>

definition cutPaths :: "TypeOracle \<Rightarrow> SILType \<Rightarrow> nat \<Rightarrow> ProjectionPath set" where
  "cutPaths Mod Ty k =
     {Q \<in> treePaths Mod Ty.
        nestingWithin Mod k (nodeType Ty Q) \<and>
        (Q = [] \<or> \<not> nestingWithin Mod k (nodeType Ty (tl Q)))}"

text \<open>One round of \<open>reduceStep\<close>, on relative paths.\<close>

definition pathParents :: "TypeOracle \<Rightarrow> SILType \<Rightarrow> ProjectionPath set \<Rightarrow> ProjectionPath set" where
  "pathParents Mod Ty Qs =
     {R \<in> tl ` {Q \<in> Qs. Q \<noteq> []}.
        card {Q \<in> Qs. Q \<noteq> [] \<and> tl Q = R} = length (Mod (nodeType Ty R))}"

definition pathStep :: "TypeOracle \<Rightarrow> SILType \<Rightarrow> ProjectionPath set \<Rightarrow> ProjectionPath set" where
  "pathStep Mod Ty Qs =
     {Q \<in> Qs. \<not> (Q \<noteq> [] \<and> tl Q \<in> pathParents Mod Ty Qs)} \<union> pathParents Mod Ty Qs"

section \<open>Concrete inputs\<close>

definition answersNoAlias :: AliasAnalysis where
  "answersNoAlias a b = NoAlias"

definition answersMayAlias :: AliasAnalysis where
  "answersMayAlias a b = MayAlias"

definition answersMustAlias :: AliasAnalysis where
  "answersMustAlias a b = MustAlias"

definition toyHashing :: Hashing where
  "toyHashing =
     \<lparr>hash_combine3 = (\<lambda>d r t. of_nat (case d of None \<Rightarrow> 0 | Some n \<Rightarrow> n + 1) * 7 + of_nat r * 5 + of_nat (TypeId t)),
      hash_combine2 = (\<lambda>a b. a * 31 + b),
      path_hash_value = (\<lambda>P. of_nat (length P) + 1)\<rparr>"

definition rootA :: SILValue where
  "rootA = \<lparr>Def = Some 1, ResultNumber = 0, ValueType = \<lparr>TypeId = 20, Category = Address\<rparr>\<rparr>"

definition rootB :: SILValue where
  "rootB = \<lparr>Def = Some 2, ResultNumber = 0, ValueType = \<lparr>TypeId = 20, Category = Address\<rparr>\<rparr>"

text \<open>
  A record type 20 with the fields \<open>fieldA\<close> (of the record type 21) and \<open>fieldB\<close> (of the scalar
  type 22); the record type 21 has the scalar fields \<open>fieldX\<close> and \<open>fieldY\<close>.
\<close>

definition fieldA :: Projection where
  "fieldA = \<lparr>PKind = Field, Index = 0, PType = \<lparr>TypeId = 21, Category = Address\<rparr>\<rparr>"

definition fieldB :: Projection where
  "fieldB = \<lparr>PKind = Field, Index = 1, PType = \<lparr>TypeId = 22, Category = Address\<rparr>\<rparr>"

definition fieldX :: Projection where
  "fieldX = \<lparr>PKind = Field, Index = 0, PType = \<lparr>TypeId = 22, Category = Address\<rparr>\<rparr>"

definition fieldY :: Projection where
  "fieldY = \<lparr>PKind = Field, Index = 1, PType = \<lparr>TypeId = 22, Category = Address\<rparr>\<rparr>"

definition toyModule :: TypeOracle where
  "toyModule Ty =
     (if TypeId Ty = 20 then [fieldA, fieldB]
      else if TypeId Ty = 21 then [fieldX, fieldY]
      else [])"

definition store0 :: store where
  "store0 a = MemLocation_of rootA [fieldA] NormalKey"

definition wholeA :: MemLocation where
  "wholeA = MemLocation_of rootA [] NormalKey"

definition leafAX :: MemLocation where
  "leafAX = MemLocation_of rootA [fieldX, fieldA] NormalKey"

definition leafAY :: MemLocation where
  "leafAY = MemLocation_of rootA [fieldY, fieldA] NormalKey"

definition leafB :: MemLocation where
  "leafB = MemLocation_of rootA [fieldB] NormalKey"

section \<open>Validity, equality and hashing\<close>

theorem isValid_counterexample:
  "\<not> (isValid (MemLocation_of SILValue_default [] NormalKey)
       \<longleftrightarrow> (Kind (MemLocation_of SILValue_default [] NormalKey) = NormalKey
            \<and> Path (MemLocation_of SILValue_default [] NormalKey) \<noteq> None))"
  by (simp add: isValid_def MemLocation_of_def SILValue_bool_def SILValue_default_def)

text \<open>
  C5, as the code has it: \<^verbatim>\<open>isValid()\<close> is true if and only if the base of the location is not
  the null value and its path is present.  The kind is not consulted: changing it leaves the
  answer as it was.  (The location with the null base, the kind \<open>NormalKey\<close> and the empty
  path, above, is of the normal kind with a path, and not valid.)
\<close>

theorem isValid_iff:
  "(isValid L \<longleftrightarrow> Def (Base L) \<noteq> None \<and> Path L \<noteq> None) \<and> isValid (setKind K L) = isValid L"
  by (simp add: isValid_def SILValue_bool_def setKind_def)

text \<open>
  C10: the free function \<^verbatim>\<open>hash_value\<close>, and with it \<^verbatim>\<open>DenseMapInfo::getHashValue\<close>, gives two
  locations of the same base the same hash, whatever their paths and kinds, for every
  \<^verbatim>\<open>hash_combine\<close>.
\<close>

theorem hash_value_base_only:
  "Base L1 = Base L2 \<Longrightarrow>
     hash_value H L1 = hash_value H L2 \<and> getHashValue H L1 = getHashValue H L2"
  by (simp add: hash_value_def getHashValue_def)

theorem hash_value_base_only_witness:
  "hash_value toyHashing (MemLocation_of rootA [fieldA] NormalKey)
     = hash_value toyHashing (MemLocation_of rootA [] TombstoneKey)
   \<and> getHashValue toyHashing (MemLocation_of rootA [fieldA] NormalKey)
     = getHashValue toyHashing (MemLocation_of rootA [] TombstoneKey)"
  using hash_value_base_only [of "MemLocation_of rootA [fieldA] NormalKey"
      "MemLocation_of rootA [] TombstoneKey" toyHashing]
  by (simp add: MemLocation_of_def)

theorem getHashValue_counterexample:
  "getHashValue toyHashing (MemLocation_of rootA [fieldA] NormalKey)
   \<noteq> ucast (hash_combine2 toyHashing
        (hash_combine3 toyHashing (Def rootA) (ResultNumber rootA) (ValueType rootA))
        (path_hash_value toyHashing [fieldA]))"
  by (simp add: getHashValue_def hash_value_def toyHashing_def MemLocation_of_def rootA_def)

text \<open>
  C4, as the code has it: the member \<^verbatim>\<open>getHashCode\<close> combines the hash of the root identity
  (defining operation, result number, type) with the hash of the path whenever the path is
  present, and is that root hash alone when the path is absent.  The hash the containers
  consult, \<^verbatim>\<open>hash_value\<close> through \<^verbatim>\<open>DenseMapInfo::getHashValue\<close>, is the root hash alone, whatever
  the path and the kind.  Both are functions of the content: a copy of a location has the
  hashes of the location.
\<close>

theorem hashes_of_location:
  "getHashCode H L =
     (case Path L of
        None \<Rightarrow> hash_value H L
      | Some P \<Rightarrow> hash_combine2 H (hash_value H L) (path_hash_value H P)) \<and>
   hash_value H (L\<lparr>Path := X, Kind := K\<rparr>) = hash_value H L \<and>
   getHashValue H L = ucast (hash_value H L) \<and>
   getHashCode H (MemLocation_copy L) = getHashCode H L \<and>
   hash_value H (MemLocation_copy L) = hash_value H L"
  by (simp add: getHashCode_def hash_value_def getHashValue_def MemLocation_copy_def Let_def
        split: option.splits)

theorem MemLocation_eq_sentinels_counterexample:
  "Kind (MemLocation_of rootA [] EmptyKey) = EmptyKey
   \<and> Kind (MemLocation_of rootB [] EmptyKey) = EmptyKey
   \<and> \<not> MemLocation_eq (MemLocation_of rootA [] EmptyKey) (MemLocation_of rootB [] EmptyKey)"
  by (simp add: MemLocation_eq_def MemLocation_of_def rootA_def rootB_def)

text \<open>
  C6, as the code has it: under \<^verbatim>\<open>DenseMapInfo::isEqual\<close>, the comparison of the hash
  containers, a location of the kind \<open>EmptyKey\<close> is equal exactly to the locations of the kind
  \<open>EmptyKey\<close>, and one of the kind \<open>TombstoneKey\<close> exactly to those of the kind \<open>TombstoneKey\<close>,
  whatever base and path either carries.  Under \<^verbatim>\<open>operator==\<close> two locations, sentinels
  included, are equal exactly when their kinds are the same, their bases are the same and
  their paths are identical: a sentinel is equal only to sentinels of its kind, and only to
  those that carry the same base and an identical path (the two \<open>EmptyKey\<close> locations of
  different bases, above, are not equal).  A sentinel and a location of the kind \<open>NormalKey\<close>
  are never equal, neither under \<^verbatim>\<open>isEqual\<close> nor under \<^verbatim>\<open>operator==\<close>.
\<close>

theorem sentinel_equality:
  "(Kind L = EmptyKey \<longrightarrow> (isEqual L R \<longleftrightarrow> Kind R = EmptyKey)) \<and>
   (Kind L = TombstoneKey \<longrightarrow> (isEqual L R \<longleftrightarrow> Kind R = TombstoneKey)) \<and>
   (MemLocation_eq L R \<longleftrightarrow>
      Kind L = Kind R \<and> Base L = Base R \<and> hasIdenticalProjectionPath L R) \<and>
   (Kind L \<noteq> NormalKey \<longrightarrow> Kind R = NormalKey \<longrightarrow>
      \<not> isEqual L R \<and> \<not> isEqual R L \<and> \<not> MemLocation_eq L R \<and> \<not> MemLocation_eq R L)"
  by (cases "Kind L"; cases "Kind R"; simp add: isEqual_def MemLocation_eq_def)

theorem sentinel_equality_witness:
  "isEqual (MemLocation_of rootA [fieldA] EmptyKey) getEmptyKey
   \<and> \<not> isEqual (MemLocation_of rootA [fieldA] EmptyKey) (MemLocation_of rootA [fieldA] TombstoneKey)
   \<and> isEqual (MemLocation_of rootB [] TombstoneKey) getTombstoneKey
   \<and> MemLocation_eq (MemLocation_of rootA [fieldA] EmptyKey) (MemLocation_of rootA [fieldA] EmptyKey)
   \<and> \<not> MemLocation_eq (MemLocation_of rootA [fieldA] EmptyKey) (MemLocation_of rootB [fieldA] EmptyKey)
   \<and> \<not> isEqual getEmptyKey MemLocation_default
   \<and> \<not> MemLocation_eq getTombstoneKey MemLocation_default"
  using sentinel_equality [of "MemLocation_of rootA [fieldA] EmptyKey" getEmptyKey]
    sentinel_equality [of "MemLocation_of rootA [fieldA] EmptyKey"
      "MemLocation_of rootA [fieldA] TombstoneKey"]
    sentinel_equality [of "MemLocation_of rootB [] TombstoneKey" getTombstoneKey]
    sentinel_equality [of "MemLocation_of rootA [fieldA] EmptyKey"
      "MemLocation_of rootA [fieldA] EmptyKey"]
    sentinel_equality [of "MemLocation_of rootA [fieldA] EmptyKey"
      "MemLocation_of rootB [fieldA] EmptyKey"]
    sentinel_equality [of getEmptyKey MemLocation_default]
    sentinel_equality [of getTombstoneKey MemLocation_default]
  by (simp add: MemLocation_of_def getEmptyKey_def getTombstoneKey_def setKind_def
        MemLocation_default_def hasIdenticalProjectionPath_def rootA_def rootB_def)

section \<open>Copying\<close>

lemma MemLocation_copy_id: "MemLocation_copy RHS = RHS"
  by (cases "Path RHS") (simp_all add: MemLocation_copy_def)

lemma assign_distinct: "this \<noteq> rhs \<Longrightarrow> assign this rhs s = s(this := s rhs)"
  by (cases "Path (s rhs)") (auto simp add: assign_def Let_def fun_eq_iff)

lemma assign_self: "assign a a s = s(a := (s a)\<lparr>Path := None\<rparr>)"
  by (auto simp add: assign_def Let_def fun_eq_iff)

text \<open>
  C9 at an assignment of an object to itself: the object at address 0 holds a location with
  the path \<open>[fieldA]\<close>; after \<^verbatim>\<open>operator=\<close> with the same object as source, its path is absent,
  so it is not the value the source had.  (For two different objects the destination becomes
  the source's value and nothing else changes, \<open>assign_distinct\<close>; the copy constructor
  builds the source's value, \<open>MemLocation_copy_id\<close>.)
\<close>

theorem assign_self_loses_path:
  "Path (store0 0) = Some [fieldA] \<and> Path (assign 0 0 store0 0) = None
   \<and> assign 0 0 store0 0 \<noteq> store0 0"
  by (simp add: assign_def Let_def store0_def MemLocation_of_def)

section \<open>Alias classification\<close>

text \<open>
  C2: \<^verbatim>\<open>isMustAliasMemLocation\<close> is true exactly when the root query reports \<open>MustAlias\<close> and both
  paths are present and identical; in particular it is false when the query reports only
  \<open>MayAlias\<close>, also for identical paths.
\<close>

theorem isMustAlias_iff:
  "(isMustAliasMemLocation AA L R \<longleftrightarrow>
      AA (Base L) (Base R) = MustAlias \<and> (\<exists>P. Path L = Some P \<and> Path R = Some P)) \<and>
   (AA (Base L) (Base R) = MayAlias \<longrightarrow> \<not> isMustAliasMemLocation AA L R)"
  by (auto simp add: isMustAliasMemLocation_def hasIdenticalProjectionPath_def
        split: option.splits)

theorem isMustAlias_iff_witness:
  "isMustAliasMemLocation answersMustAlias (MemLocation_of rootA [fieldA] NormalKey)
     (MemLocation_of rootB [fieldA] NormalKey)
   \<and> \<not> isMustAliasMemLocation answersMayAlias (MemLocation_of rootA [fieldA] NormalKey)
     (MemLocation_of rootA [fieldA] NormalKey)
   \<and> \<not> isMustAliasMemLocation answersMustAlias (MemLocation_of rootA [fieldA] NormalKey)
     (MemLocation_of rootA [fieldB] NormalKey)"
  using isMustAlias_iff [of answersMustAlias "MemLocation_of rootA [fieldA] NormalKey"
      "MemLocation_of rootB [fieldA] NormalKey"]
    isMustAlias_iff [of answersMayAlias "MemLocation_of rootA [fieldA] NormalKey"
      "MemLocation_of rootA [fieldA] NormalKey"]
    isMustAlias_iff [of answersMustAlias "MemLocation_of rootA [fieldA] NormalKey"
      "MemLocation_of rootA [fieldB] NormalKey"]
  by (simp add: MemLocation_of_def answersMustAlias_def answersMayAlias_def fieldA_def
        fieldB_def)

text \<open>
  C1: for every pair of locations, \<^verbatim>\<open>isMayAliasMemLocation\<close> returns false when the root query
  reports \<open>NoAlias\<close>, whatever the paths.  Otherwise it returns false only when the two paths
  are proven disjoint, that is when both are present and neither is an initial part, from the
  root, of the other (a suffix of the stored sequence), and it returns true in every
  remaining case.
\<close>

theorem isMayAlias_spec:
  "(AA (Base L) (Base R) = NoAlias \<longrightarrow> \<not> isMayAliasMemLocation AA L R) \<and>
   (AA (Base L) (Base R) \<noteq> NoAlias \<longrightarrow>
      (\<not> isMayAliasMemLocation AA L R \<longleftrightarrow>
         (\<exists>P Q. Path L = Some P \<and> Path R = Some Q \<and> \<not> suffix P Q \<and> \<not> suffix Q P)))"
  by (auto simp add: isMayAliasMemLocation_def hasNonEmptySymmetricPathDifference_def
        hasNonEmptySymmetricDifference_def split: option.splits)

theorem isMayAlias_spec_witness:
  "\<not> isMayAliasMemLocation answersNoAlias (MemLocation_of rootA [fieldA] NormalKey)
     (MemLocation_of rootA [fieldA] NormalKey)
   \<and> \<not> isMayAliasMemLocation answersMayAlias (MemLocation_of rootA [fieldA] NormalKey)
     (MemLocation_of rootA [fieldB] NormalKey)
   \<and> isMayAliasMemLocation answersMayAlias (MemLocation_of rootA [fieldA] NormalKey)
     (MemLocation_of rootA [] NormalKey)
   \<and> isMayAliasMemLocation answersMayAlias (MemLocation_of rootA [fieldA] NormalKey)
     MemLocation_default"
  using isMayAlias_spec [of answersNoAlias "MemLocation_of rootA [fieldA] NormalKey"
      "MemLocation_of rootA [fieldA] NormalKey"]
    isMayAlias_spec [of answersMayAlias "MemLocation_of rootA [fieldA] NormalKey"
      "MemLocation_of rootA [fieldB] NormalKey"]
    isMayAlias_spec [of answersMayAlias "MemLocation_of rootA [fieldA] NormalKey"
      "MemLocation_of rootA [] NormalKey"]
    isMayAlias_spec [of answersMayAlias "MemLocation_of rootA [fieldA] NormalKey"
      MemLocation_default]
  by (simp add: MemLocation_of_def MemLocation_default_def answersNoAlias_def
        answersMayAlias_def fieldA_def fieldB_def suffix_Cons)

section \<open>Decomposition: the leaves of a location\<close>

subsection \<open>Relative paths and the tree of a type\<close>

lemma nodeType_append: "nodeType (nodeType Ty Q) R = nodeType Ty (R @ Q)"
  by (simp add: nodeType_def)

lemma nodeType_Nil: "nodeType Ty [] = Ty"
  by (simp add: nodeType_def)

lemma nodeType_Cons: "nodeType Ty (X # Q) = getObjectType (PType X)"
  by (simp add: nodeType_def)

lemma node_Nil: "Path L = Some P \<Longrightarrow> node L [] = L"
  by (simp add: node_def)

lemma Path_node: "Path L = Some P \<Longrightarrow> Path (node L Q) = Some (Q @ P)"
  by (simp add: node_def)

lemma Base_node: "Base (node L Q) = Base L"
  by (simp add: node_def)

lemma node_node: "Path L = Some P \<Longrightarrow> node (node L Q) R = node L (R @ Q)"
  by (simp add: node_def)

lemma node_eq_iff: "Path L = Some P \<Longrightarrow> node L Q = node L R \<longleftrightarrow> Q = R"
proof
  assume p: "Path L = Some P" and e: "node L Q = node L R"
  from e have "Path (node L Q) = Path (node L R)" by simp
  with p show "Q = R" by (simp add: Path_node)
qed simp

lemma inj_node: "Path L = Some P \<Longrightarrow> inj_on (node L) A"
  by (rule inj_onI) (simp add: node_eq_iff)

lemma getType_node:
  "Path L = Some P \<Longrightarrow> getType L = Inr Ty \<Longrightarrow> getType (node L Q) = Inr (nodeType Ty Q)"
  by (cases Q) (auto simp add: getType_def node_def nodeType_def split: if_splits)

lemma firstLevel_node:
  assumes "Path L = Some P" "getType L = Inr Ty"
  shows "getFirstLevelMemLocations Mod (node L Q)
         = Inr (map (\<lambda>X. node L (X # Q)) (Mod (nodeType Ty Q)))"
  using assms
  by (simp add: getFirstLevelMemLocations_def getType_node Path_node) (simp add: node_def)

lemma nestingWithin_Suc: "nestingWithin Mod d Ty \<Longrightarrow> nestingWithin Mod (Suc d) Ty"
  by (induction d arbitrary: Ty) auto

lemma nestingWithin_mono: "nestingWithin Mod d Ty \<Longrightarrow> d \<le> d' \<Longrightarrow> nestingWithin Mod d' Ty"
  by (induction d' ) (auto simp add: le_Suc_eq nestingWithin_Suc simp del: nestingWithin.simps)

lemma nestingWithin_leaf: "Mod Ty = [] \<Longrightarrow> nestingWithin Mod d Ty"
  by (cases d) auto

lemma treePaths_Cons_iff:
  "X # Q \<in> treePaths Mod Ty \<longleftrightarrow> Q \<in> treePaths Mod Ty \<and> X \<in> set (Mod (nodeType Ty Q))"
  by (auto intro: treePaths.down elim: treePaths.cases)

lemma treePaths_append_iff:
  "R @ Q \<in> treePaths Mod Ty \<longleftrightarrow> Q \<in> treePaths Mod Ty \<and> R \<in> treePaths Mod (nodeType Ty Q)"
proof (induction R)
  case Nil
  show ?case by (simp add: treePaths.top)
next
  case (Cons X R)
  then show ?case by (auto simp add: treePaths_Cons_iff nodeType_append)
qed

lemma treePaths_leaf: "Mod Ty = [] \<Longrightarrow> treePaths Mod Ty = {[]}"
proof -
  assume leaf: "Mod Ty = []"
  have "Q = []" if "Q \<in> treePaths Mod Ty" for Q
  proof (rule ccontr)
    assume "Q \<noteq> []"
    then have "Q = butlast Q @ [last Q]" by simp
    with that have "butlast Q @ [last Q] \<in> treePaths Mod Ty" by simp
    then have "[last Q] \<in> treePaths Mod Ty" by (simp only: treePaths_append_iff)
    with leaf show False by (simp add: treePaths_Cons_iff nodeType_Nil)
  qed
  then show ?thesis by (auto intro: treePaths.top)
qed

lemma treePaths_snoc_iff:
  "Q \<in> treePaths Mod Ty \<longleftrightarrow>
     Q = [] \<or> (\<exists>X R. Q = R @ [X] \<and> X \<in> set (Mod Ty) \<and> R \<in> treePaths Mod (getObjectType (PType X)))"
proof (cases "Q = []")
  case True
  then show ?thesis by (simp add: treePaths.top)
next
  case False
  then have q: "Q = butlast Q @ [last Q]" by simp
  have "Q \<in> treePaths Mod Ty \<longleftrightarrow> butlast Q @ [last Q] \<in> treePaths Mod Ty"
    using q by simp
  also have "\<dots> \<longleftrightarrow> last Q \<in> set (Mod Ty) \<and> butlast Q \<in> treePaths Mod (getObjectType (PType (last Q)))"
    by (simp only: treePaths_append_iff) (simp add: treePaths_Cons_iff nodeType_Nil nodeType_Cons treePaths.top)
  also have "\<dots> \<longleftrightarrow> (\<exists>X R. Q = R @ [X] \<and> X \<in> set (Mod Ty) \<and> R \<in> treePaths Mod (getObjectType (PType X)))"
    using q by (metis append_butlast_last_id butlast_snoc last_snoc)
  finally show ?thesis using False by simp
qed

lemma nestingWithin_node:
  "Q \<in> treePaths Mod Ty \<Longrightarrow> nestingWithin Mod d Ty \<Longrightarrow> nestingWithin Mod d (nodeType Ty Q)"
proof (induction rule: treePaths.induct)
  case top
  then show ?case by (simp add: nodeType_Nil)
next
  case (down Q X)
  then have w: "nestingWithin Mod d (nodeType Ty Q)" by simp
  show ?case
  proof (cases d)
    case 0
    with w down.hyps show ?thesis by simp
  next
    case (Suc d')
    with w down.hyps have "nestingWithin Mod d' (getObjectType (PType X))" by simp
    then show ?thesis using Suc by (simp add: nodeType_Cons nestingWithin_Suc del: nestingWithin.simps)
  qed
qed

lemma subobjects_node:
  assumes p: "Path L = Some P" and t: "getType L = Inr Ty"
  shows "subobjects Mod L = node L ` treePaths Mod Ty"
proof (rule set_eqI, rule iffI)
  fix X assume "X \<in> subobjects Mod L"
  then show "X \<in> node L ` treePaths Mod Ty"
  proof (induction rule: subobjects.induct)
    case self
    have "L = node L []" using p by (simp add: node_Nil)
    then show ?case using treePaths.top by blast
  next
    case (part X Cs C)
    then obtain Q where q: "Q \<in> treePaths Mod Ty" "X = node L Q" by auto
    with part.hyps have "C \<in> set (map (\<lambda>Y. node L (Y # Q)) (Mod (nodeType Ty Q)))"
      by (simp add: firstLevel_node [OF p t])
    then obtain Y where "Y \<in> set (Mod (nodeType Ty Q))" "C = node L (Y # Q)" by auto
    with q show ?case by (auto intro: treePaths.down)
  qed
next
  fix X assume "X \<in> node L ` treePaths Mod Ty"
  then obtain Q where q: "Q \<in> treePaths Mod Ty" and x: "X = node L Q" by auto
  from q have "node L Q \<in> subobjects Mod L"
  proof (induction rule: treePaths.induct)
    case top
    then show ?case using p by (simp add: node_Nil subobjects.self)
  next
    case (down Q Y)
    have "node L (Y # Q) \<in> set (map (\<lambda>X. node L (X # Q)) (Mod (nodeType Ty Q)))"
      using down.hyps by simp
    then show ?case
      using subobjects.part [OF down.IH firstLevel_node [OF p t]] by blast
  qed
  with x show "X \<in> subobjects Mod L" by simp
qed

lemma isLeaf_node:
  "Path L = Some P \<Longrightarrow> getType L = Inr Ty \<Longrightarrow> isLeaf Mod (node L Q) \<longleftrightarrow> Mod (nodeType Ty Q) = []"
  by (simp add: isLeaf_def firstLevel_node)

lemma collect_map:
  "\<forall>x\<in>set xs. \<exists>ys. f x = Inr ys \<and> set ys = g x \<Longrightarrow>
     \<exists>zs. collect (map f xs) = Inr zs \<and> set zs = (\<Union>x\<in>set xs. g x)"
proof (induction xs)
  case Nil
  then show ?case by simp
next
  case (Cons x xs)
  then obtain ys where ys: "f x = Inr ys" "set ys = g x" by auto
  from Cons obtain zs where zs: "collect (map f xs) = Inr zs" "set zs = (\<Union>x\<in>set xs. g x)" by auto
  from ys zs show ?case by simp
qed

lemma leaves_of_children:
  assumes ne: "Mod Ty \<noteq> []"
  shows "(\<Union>X\<in>set (Mod Ty). (\<lambda>R. R @ [X]) `
            {R \<in> treePaths Mod (getObjectType (PType X)). Mod (nodeType (getObjectType (PType X)) R) = []})
         = {Q \<in> treePaths Mod Ty. Mod (nodeType Ty Q) = []}"
    (is "?lhs = ?rhs")
proof (rule set_eqI, rule iffI)
  fix Q assume "Q \<in> ?lhs"
  then obtain X R where x: "X \<in> set (Mod Ty)" and r: "R \<in> treePaths Mod (getObjectType (PType X))"
    and leaf: "Mod (nodeType (getObjectType (PType X)) R) = []" and q: "Q = R @ [X]"
    by auto
  have "nodeType Ty (R @ [X]) = nodeType (nodeType Ty [X]) R"
    by (simp only: nodeType_append)
  with leaf have "Mod (nodeType Ty Q) = []" using q by (simp add: nodeType_Cons)
  moreover have "Q \<in> treePaths Mod Ty"
    using x r q treePaths_snoc_iff [of Q Mod Ty] by blast
  ultimately show "Q \<in> ?rhs" by simp
next
  fix Q assume "Q \<in> ?rhs"
  then have q: "Q \<in> treePaths Mod Ty" and leaf: "Mod (nodeType Ty Q) = []" by auto
  from leaf ne have "Q \<noteq> []" by (auto simp add: nodeType_Nil)
  with q obtain X R where x: "X \<in> set (Mod Ty)" and r: "R \<in> treePaths Mod (getObjectType (PType X))"
    and qq: "Q = R @ [X]"
    using treePaths_snoc_iff [of Q Mod Ty] by blast
  have "nodeType Ty (R @ [X]) = nodeType (nodeType Ty [X]) R"
    by (simp only: nodeType_append)
  with leaf qq have "Mod (nodeType (getObjectType (PType X)) R) = []"
    by (simp add: nodeType_Cons)
  with x r qq show "Q \<in> ?lhs" by blast
qed

lemma expand_leaves:
  "Path L = Some P \<Longrightarrow> getType L = Inr Ty \<Longrightarrow> nestingWithin Mod d Ty \<Longrightarrow>
     \<exists>Ls. expand (Suc d) Mod L = Inr Ls \<and>
          set Ls = node L ` {Q \<in> treePaths Mod Ty. Mod (nodeType Ty Q) = []}"
proof (induction d arbitrary: L P Ty)
  case 0
  then have leaf: "Mod Ty = []" by simp
  have "getFirstLevelMemLocations Mod L = Inr []"
    using firstLevel_node [OF "0.prems"(1,2), of Mod "[]"] leaf "0.prems"(1)
    by (simp add: node_Nil nodeType_Nil)
  then have "expand (Suc 0) Mod L = Inr [L]" by simp
  moreover have "node L ` {Q \<in> treePaths Mod Ty. Mod (nodeType Ty Q) = []} = {L}"
    using leaf "0.prems"(1) by (auto simp add: treePaths_leaf nodeType_Nil node_Nil)
  ultimately show ?case by simp
next
  case (Suc d)
  note p = Suc.prems(1) and t = Suc.prems(2)
  have fl: "getFirstLevelMemLocations Mod L = Inr (map (\<lambda>X. node L [X]) (Mod Ty))"
    using firstLevel_node [OF p t, of Mod "[]"] p by (simp add: node_Nil nodeType_Nil)
  show ?case
  proof (cases "Mod Ty = []")
    case True
    with fl have "expand (Suc (Suc d)) Mod L = Inr [L]" by simp
    moreover have "node L ` {Q \<in> treePaths Mod Ty. Mod (nodeType Ty Q) = []} = {L}"
      using True p by (auto simp add: treePaths_leaf nodeType_Nil node_Nil)
    ultimately show ?thesis by simp
  next
    case False
    then obtain C Cs where cs: "map (\<lambda>X. node L [X]) (Mod Ty) = C # Cs"
      by (cases "Mod Ty") auto
    have ex: "expand (Suc (Suc d)) Mod L
              = collect (map (expand (Suc d) Mod) (map (\<lambda>X. node L [X]) (Mod Ty)))"
      using fl cs by simp
    have "\<forall>X\<in>set (Mod Ty). \<exists>Ls. (expand (Suc d) Mod \<circ> (\<lambda>X. node L [X])) X = Inr Ls \<and>
            set Ls = node L ` (\<lambda>R. R @ [X]) `
              {R \<in> treePaths Mod (getObjectType (PType X)). Mod (nodeType (getObjectType (PType X)) R) = []}"
    proof
      fix X assume x: "X \<in> set (Mod Ty)"
      have p': "Path (node L [X]) = Some (X # P)" using p by (simp add: Path_node)
      have t': "getType (node L [X]) = Inr (getObjectType (PType X))"
        using getType_node [OF p t, of "[X]"] by (simp add: nodeType_Cons)
      have n': "nestingWithin Mod d (getObjectType (PType X))"
        using Suc.prems(3) x by simp
      from Suc.IH [OF p' t' n'] obtain Ls where
        "expand (Suc d) Mod (node L [X]) = Inr Ls"
        "set Ls = node (node L [X]) `
           {R \<in> treePaths Mod (getObjectType (PType X)). Mod (nodeType (getObjectType (PType X)) R) = []}"
        by blast
      then show "\<exists>Ls. (expand (Suc d) Mod \<circ> (\<lambda>X. node L [X])) X = Inr Ls \<and>
            set Ls = node L ` (\<lambda>R. R @ [X]) `
              {R \<in> treePaths Mod (getObjectType (PType X)). Mod (nodeType (getObjectType (PType X)) R) = []}"
        using p by (simp add: node_node image_image)
    qed
    from collect_map [OF this] obtain Ls where
      ls: "collect (map (expand (Suc d) Mod \<circ> (\<lambda>X. node L [X])) (Mod Ty)) = Inr Ls"
      "set Ls = (\<Union>X\<in>set (Mod Ty). node L ` (\<lambda>R. R @ [X]) `
              {R \<in> treePaths Mod (getObjectType (PType X)). Mod (nodeType (getObjectType (PType X)) R) = []})"
      by blast
    have "set Ls = node L ` (\<Union>X\<in>set (Mod Ty). (\<lambda>R. R @ [X]) `
              {R \<in> treePaths Mod (getObjectType (PType X)). Mod (nodeType (getObjectType (PType X)) R) = []})"
      using ls(2) by (simp add: image_UN)
    then have "set Ls = node L ` {Q \<in> treePaths Mod Ty. Mod (nodeType Ty Q) = []}"
      using leaves_of_children [of Mod Ty] False by simp
    with ls(1) ex show ?thesis by (simp only: map_map) simp
  qed
qed

lemma has_leaf:
  "nestingWithin Mod d Ty \<Longrightarrow> \<exists>Q \<in> treePaths Mod Ty. Mod (nodeType Ty Q) = []"
proof (induction d arbitrary: Ty)
  case 0
  then show ?case
    by (intro bexI [of _ "[]"]) (simp_all add: nodeType_Nil treePaths.top)
next
  case (Suc d)
  show ?case
  proof (cases "Mod Ty")
    case Nil
    then show ?thesis
      by (intro bexI [of _ "[]"]) (simp_all add: nodeType_Nil treePaths.top)
  next
    case (Cons X Xs)
    with Suc.prems have "nestingWithin Mod d (getObjectType (PType X))" by simp
    from Suc.IH [OF this] obtain R where r: "R \<in> treePaths Mod (getObjectType (PType X))"
      "Mod (nodeType (getObjectType (PType X)) R) = []" by blast
    have x: "X \<in> set (Mod Ty)" using Cons by simp
    have "R @ [X] \<in> treePaths Mod Ty"
      using x r(1) treePaths_snoc_iff [of "R @ [X]" Mod Ty] by blast
    moreover have "nodeType Ty (R @ [X]) = nodeType (nodeType Ty [X]) R"
      by (simp only: nodeType_append)
    then have "Mod (nodeType Ty (R @ [X])) = []" using r(2) by (simp add: nodeType_Cons)
    ultimately show ?thesis by blast
  qed
qed

lemma leaves_disjoint:
  assumes q: "Q \<in> treePaths Mod Ty" and leaf: "Mod (nodeType Ty Q) = []"
    and r: "R \<in> treePaths Mod Ty" and s: "suffix Q R"
  shows "Q = R"
proof -
  from s obtain Z where z: "R = Z @ Q" by (auto simp add: suffix_def)
  with r have "Z \<in> treePaths Mod (nodeType Ty Q)" by (simp add: treePaths_append_iff)
  with leaf have "Z = []" by (simp add: treePaths_leaf)
  with z show ?thesis by simp
qed


lemma expand_wholeA:
  "expand (Suc (Suc (Suc 0))) toyModule wholeA = Inr [leafAX, leafAY, leafB]"
  by (simp add: wholeA_def leafAX_def leafAY_def leafB_def MemLocation_of_def
        getFirstLevelMemLocations_def getType_def getObjectType_def toyModule_def
        rootA_def fieldA_def fieldB_def fieldX_def fieldY_def)

lemma isValid_wholeA: "isValid wholeA"
  by (simp add: wholeA_def MemLocation_of_def isValid_def SILValue_bool_def rootA_def)

lemma fullyDecomposable_wholeA: "fullyDecomposableLocation toyModule (Suc (Suc 0)) wholeA"
  by (simp add: fullyDecomposableLocation_def wholeA_def MemLocation_of_def getType_def
        getObjectType_def toyModule_def rootA_def fieldA_def fieldB_def fieldX_def fieldY_def)

lemma finiteNesting_wholeA: "finiteNesting toyModule (Suc (Suc 0)) wholeA"
  by (simp add: finiteNesting_def wholeA_def MemLocation_of_def getType_def
        getObjectType_def toyModule_def rootA_def fieldA_def fieldB_def fieldX_def fieldY_def)


text \<open>
  C8: for a valid location whose type nests within \<open>d\<close> levels (finite, acyclic nesting) and
  a depth guard beyond \<open>d\<close>, \<^verbatim>\<open>expand\<close> terminates with a result, and the locations it produces
  are exactly the sub-objects of the location that are leaves.  So they are total: every
  sub-object of the location has a produced leaf among its own sub-objects, no part of the
  location is left out.  And they are disjoint: two different produced leaves have paths of
  which neither is an initial part of the other, which is what the path comparison of the
  header reports.
\<close>

theorem expand_total_disjoint:
  assumes v: "isValid L" and n: "finiteNesting Mod d L" and g: "d < guard"
  shows "\<exists>Locs. expand guard Mod L = Inr Locs \<and>
           set Locs = {X \<in> subobjects Mod L. isLeaf Mod X} \<and>
           (\<forall>X \<in> subobjects Mod L. \<exists>Y \<in> set Locs. Y \<in> subobjects Mod X) \<and>
           (\<forall>X \<in> set Locs. \<forall>Y \<in> set Locs. X \<noteq> Y \<longrightarrow>
              hasNonEmptySymmetricPathDifference X Y = Inr True)"
proof -
  from v obtain P where p: "Path L = Some P" by (auto simp add: isValid_def)
  from n obtain Ty where t: "getType L = Inr Ty" and w: "nestingWithin Mod d Ty"
    by (auto simp add: finiteNesting_def split: sum.splits)
  from g obtain d' where d': "guard = Suc d'" "d \<le> d'" by (cases guard) auto
  have w': "nestingWithin Mod d' Ty" using w d'(2) by (rule nestingWithin_mono)
  from expand_leaves [OF p t w'] d'(1) obtain Locs where
    ex: "expand guard Mod L = Inr Locs"
    and ls: "set Locs = node L ` {Q \<in> treePaths Mod Ty. Mod (nodeType Ty Q) = []}"
    by auto
  have so: "subobjects Mod L = node L ` treePaths Mod Ty" by (rule subobjects_node [OF p t])
  have total: "set Locs = {X \<in> subobjects Mod L. isLeaf Mod X}"
    unfolding ls so using isLeaf_node [OF p t] by auto
  have cover: "\<exists>Y \<in> set Locs. Y \<in> subobjects Mod X" if "X \<in> subobjects Mod L" for X
  proof -
    from that so obtain Q where q: "Q \<in> treePaths Mod Ty" and x: "X = node L Q" by auto
    have px: "Path X = Some (Q @ P)" using p x by (simp add: Path_node)
    have tx: "getType X = Inr (nodeType Ty Q)" using x by (simp add: getType_node [OF p t])
    have "nestingWithin Mod d (nodeType Ty Q)" using q w by (rule nestingWithin_node)
    from has_leaf [OF this] obtain R where r: "R \<in> treePaths Mod (nodeType Ty Q)"
      and leaf: "Mod (nodeType (nodeType Ty Q) R) = []" by blast
    have "R @ Q \<in> treePaths Mod Ty" using q r by (simp add: treePaths_append_iff)
    moreover have "Mod (nodeType Ty (R @ Q)) = []" using leaf by (simp only: nodeType_append)
    ultimately have "node L (R @ Q) \<in> set Locs" unfolding ls by blast
    moreover have "node L (R @ Q) \<in> subobjects Mod X"
      unfolding subobjects_node [OF px tx] using r x p by (auto simp add: node_node)
    ultimately show ?thesis by blast
  qed
  have disj: "hasNonEmptySymmetricPathDifference X Y = Inr True"
    if "X \<in> set Locs" "Y \<in> set Locs" "X \<noteq> Y" for X Y
  proof -
    from that ls obtain Q R where q: "Q \<in> treePaths Mod Ty" "Mod (nodeType Ty Q) = []" "X = node L Q"
      and r: "R \<in> treePaths Mod Ty" "Mod (nodeType Ty R) = []" "Y = node L R" by auto
    from that(3) q(3) r(3) have ne: "Q \<noteq> R" by auto
    have "\<not> suffix Q R" using leaves_disjoint [OF q(1,2) r(1)] ne by auto
    moreover have "\<not> suffix R Q" using leaves_disjoint [OF r(1,2) q(1)] ne by auto
    ultimately show ?thesis
      using p q(3) r(3)
      by (simp add: hasNonEmptySymmetricPathDifference_def hasNonEmptySymmetricDifference_def Path_node)
  qed
  from ex total cover disj show ?thesis by blast
qed

theorem expand_total_disjoint_witness:
  "expand (Suc (Suc (Suc 0))) toyModule wholeA = Inr [leafAX, leafAY, leafB]
   \<and> set [leafAX, leafAY, leafB] = {X \<in> subobjects toyModule wholeA. isLeaf toyModule X}
   \<and> hasNonEmptySymmetricPathDifference leafAX leafAY = Inr True
   \<and> hasNonEmptySymmetricPathDifference leafAX leafB = Inr True
   \<and> hasNonEmptySymmetricPathDifference leafAY leafB = Inr True"
proof -
  from expand_total_disjoint [OF isValid_wholeA finiteNesting_wholeA, of "Suc (Suc (Suc 0))"]
  obtain Locs where e: "expand (Suc (Suc (Suc 0))) toyModule wholeA = Inr Locs"
    and t: "set Locs = {X \<in> subobjects toyModule wholeA. isLeaf toyModule X}"
    and d: "\<forall>X \<in> set Locs. \<forall>Y \<in> set Locs. X \<noteq> Y \<longrightarrow>
              hasNonEmptySymmetricPathDifference X Y = Inr True"
    by auto
  from e [unfolded expand_wholeA] have l: "Locs = [leafAX, leafAY, leafB]" by simp
  have ne: "leafAX \<noteq> leafAY" "leafAX \<noteq> leafB" "leafAY \<noteq> leafB"
    by (simp_all add: leafAX_def leafAY_def leafB_def MemLocation_of_def fieldX_def fieldY_def fieldB_def)
  from d ne have h: "hasNonEmptySymmetricPathDifference leafAX leafAY = Inr True"
    "hasNonEmptySymmetricPathDifference leafAX leafB = Inr True"
    "hasNonEmptySymmetricPathDifference leafAY leafB = Inr True"
    unfolding l by simp_all
  show ?thesis by (intro conjI) (rule expand_wholeA t [unfolded l] h)+
qed

section \<open>Recomposition: the round trip\<close>

lemma fullyDecomposable_nesting: "fullyDecomposable Mod d Ty \<Longrightarrow> nestingWithin Mod d Ty"
  by (induction d arbitrary: Ty) auto

lemma fullyDecomposable_distinct: "fullyDecomposable Mod d Ty \<Longrightarrow> distinct (Mod Ty)"
  by (cases d) auto

lemma fullyDecomposable_Suc: "fullyDecomposable Mod d Ty \<Longrightarrow> fullyDecomposable Mod (Suc d) Ty"
  by (induction d arbitrary: Ty) auto

lemma fullyDecomposable_node:
  "Q \<in> treePaths Mod Ty \<Longrightarrow> fullyDecomposable Mod d Ty \<Longrightarrow> fullyDecomposable Mod d (nodeType Ty Q)"
proof (induction rule: treePaths.induct)
  case top
  then show ?case by (simp add: nodeType_Nil)
next
  case (down Q X)
  then have w: "fullyDecomposable Mod d (nodeType Ty Q)" by simp
  show ?case
  proof (cases d)
    case 0
    with w down.hyps show ?thesis by simp
  next
    case (Suc d')
    with w down.hyps have "fullyDecomposable Mod d' (getObjectType (PType X))" by simp
    then show ?thesis
      using Suc by (simp add: nodeType_Cons fullyDecomposable_Suc del: fullyDecomposable.simps)
  qed
qed

lemma derivedFrom_node: "Path L = Some P \<Longrightarrow> derivedFrom L (node L Q) \<longleftrightarrow> Q \<noteq> []"
  by (simp add: derivedFrom_def Path_node Base_node suffix_def)

lemma parentLocation_node:
  "Path L = Some P \<Longrightarrow> Q \<noteq> [] \<Longrightarrow> parentLocation (node L Q) = node L (tl Q)"
  by (simp add: parentLocation_def node_def)

lemma siblings_node:
  assumes p: "Path L = Some P"
  shows "siblings L (node L ` Qs) (node L R) = node L ` {Q \<in> Qs. Q \<noteq> [] \<and> tl Q = R}"
  unfolding siblings_def
  using p by (auto simp add: derivedFrom_node parentLocation_node node_eq_iff)

lemma derived_image:
  assumes p: "Path L = Some P"
  shows "{X \<in> node L ` Qs. derivedFrom L X} = node L ` {Q \<in> Qs. Q \<noteq> []}"
  using derivedFrom_node [OF p] by blast

lemma parents_image:
  assumes p: "Path L = Some P"
  shows "parentLocation ` {X \<in> node L ` Qs. derivedFrom L X} = node L ` tl ` {Q \<in> Qs. Q \<noteq> []}"
proof -
  have "parentLocation ` node L ` {Q \<in> Qs. Q \<noteq> []} = node L ` tl ` {Q \<in> Qs. Q \<noteq> []}"
    unfolding image_image
    by (rule image_cong) (simp_all add: parentLocation_node [OF p])
  then show ?thesis by (simp only: derived_image [OF p])
qed

lemma Collect_image_eq: "{y \<in> f ` A. G y} = f ` {x \<in> A. G (f x)}"
  by blast

lemma completeParents_node:
  assumes p: "Path L = Some P" and t: "getType L = Inr Ty"
  shows "completeParents Mod L (node L ` Qs) = node L ` pathParents Mod Ty Qs"
proof -
  define G where "G Pa = (case getType Pa of Inl e \<Rightarrow> False
      | Inr Ty' \<Rightarrow> card (siblings L (node L ` Qs) Pa) = length (Mod Ty'))" for Pa
  have c: "card (siblings L (node L ` Qs) (node L R)) = card {Q \<in> Qs. Q \<noteq> [] \<and> tl Q = R}" for R
    unfolding siblings_node [OF p] by (rule card_image) (rule inj_node [OF p])
  have g: "G (node L R) \<longleftrightarrow> card {Q \<in> Qs. Q \<noteq> [] \<and> tl Q = R} = length (Mod (nodeType Ty R))" for R
    unfolding G_def by (simp add: getType_node [OF p t] c)
  have "completeParents Mod L (node L ` Qs)
        = {Pa \<in> parentLocation ` {X \<in> node L ` Qs. derivedFrom L X}. G Pa}"
    unfolding completeParents_def G_def ..
  also have "\<dots> = {Pa \<in> node L ` (tl ` {Q \<in> Qs. Q \<noteq> []}). G Pa}"
    by (simp only: parents_image [OF p])
  also have "\<dots> = node L ` {R \<in> tl ` {Q \<in> Qs. Q \<noteq> []}. G (node L R)}"
    by (rule Collect_image_eq)
  also have "\<dots> = node L ` pathParents Mod Ty Qs"
    unfolding pathParents_def by (simp only: g)
  finally show ?thesis .
qed

lemma parent_in_image:
  assumes p: "Path L = Some P"
  shows "(derivedFrom L (node L Q) \<and> parentLocation (node L Q) \<in> node L ` PP)
         \<longleftrightarrow> (Q \<noteq> [] \<and> tl Q \<in> PP)"
proof (cases "Q = []")
  case True
  then show ?thesis using p by (simp add: derivedFrom_node)
next
  case False
  have "inj (node L)" by (rule inj_node [OF p])
  then have "node L (tl Q) \<in> node L ` PP \<longleftrightarrow> tl Q \<in> PP"
    by (rule inj_image_mem_iff)
  with False show ?thesis
    by (simp add: derivedFrom_node [OF p] parentLocation_node [OF p])
qed

lemma reduceStep_node:
  assumes p: "Path L = Some P" and t: "getType L = Inr Ty"
  shows "reduceStep Mod L (node L ` Qs) = node L ` pathStep Mod Ty Qs"
proof -
  define PP where "PP = pathParents Mod Ty Qs"
  have "{X \<in> node L ` Qs. \<not> (derivedFrom L X \<and> parentLocation X \<in> node L ` PP)}
        = node L ` {Q \<in> Qs. \<not> (derivedFrom L (node L Q) \<and> parentLocation (node L Q) \<in> node L ` PP)}"
    by (rule Collect_image_eq)
  also have "\<dots> = node L ` {Q \<in> Qs. \<not> (Q \<noteq> [] \<and> tl Q \<in> PP)}"
    by (simp only: parent_in_image [OF p])
  finally have "{X \<in> node L ` Qs. \<not> (derivedFrom L X \<and> parentLocation X \<in> node L ` PP)} \<union> node L ` PP
        = node L ` ({Q \<in> Qs. \<not> (Q \<noteq> [] \<and> tl Q \<in> PP)} \<union> PP)"
    by (simp only: image_Un)
  then show ?thesis
    unfolding reduceStep_def pathStep_def completeParents_node [OF p t] PP_def .
qed

lemma card_filter_distinct:
  assumes "distinct xs"
  shows "card {x \<in> set xs. Q x} = length xs \<longleftrightarrow> (\<forall>x \<in> set xs. Q x)"
proof
  assume c: "card {x \<in> set xs. Q x} = length xs"
  show "\<forall>x \<in> set xs. Q x"
  proof (rule ccontr)
    assume "\<not> (\<forall>x \<in> set xs. Q x)"
    then have "{x \<in> set xs. Q x} \<subset> set xs" by auto
    then have "card {x \<in> set xs. Q x} < card (set xs)" by (simp add: psubset_card_mono)
    with c assms show False by (simp add: distinct_card)
  qed
next
  assume "\<forall>x \<in> set xs. Q x"
  then have "{x \<in> set xs. Q x} = set xs" by auto
  with assms show "card {x \<in> set xs. Q x} = length xs" by (simp add: distinct_card)
qed

lemma cut_children_mem:
  "(Q \<in> cutPaths Mod Ty k \<and> Q \<noteq> [] \<and> tl Q = R) \<longleftrightarrow>
     (\<exists>X. Q = X # R \<and> R \<in> treePaths Mod Ty \<and> \<not> nestingWithin Mod k (nodeType Ty R)
          \<and> X \<in> set (Mod (nodeType Ty R)) \<and> nestingWithin Mod k (getObjectType (PType X)))"
  by (cases Q) (auto simp add: cutPaths_def treePaths_Cons_iff nodeType_Cons)

lemma cut_children:
  assumes r: "R \<in> treePaths Mod Ty" and nk: "\<not> nestingWithin Mod k (nodeType Ty R)"
  shows "{Q \<in> cutPaths Mod Ty k. Q \<noteq> [] \<and> tl Q = R}
         = (\<lambda>X. X # R) ` {X \<in> set (Mod (nodeType Ty R)). nestingWithin Mod k (getObjectType (PType X))}"
proof (rule set_eqI)
  fix Q
  have "Q \<in> {Q \<in> cutPaths Mod Ty k. Q \<noteq> [] \<and> tl Q = R}
        \<longleftrightarrow> (Q \<in> cutPaths Mod Ty k \<and> Q \<noteq> [] \<and> tl Q = R)" by simp
  also have "\<dots> \<longleftrightarrow> (\<exists>X. Q = X # R \<and> R \<in> treePaths Mod Ty \<and> \<not> nestingWithin Mod k (nodeType Ty R)
          \<and> X \<in> set (Mod (nodeType Ty R)) \<and> nestingWithin Mod k (getObjectType (PType X)))"
    by (rule cut_children_mem)
  also have "\<dots> \<longleftrightarrow> Q \<in> (\<lambda>X. X # R) ` {X \<in> set (Mod (nodeType Ty R)). nestingWithin Mod k (getObjectType (PType X))}"
    using r nk by auto
  finally show "Q \<in> {Q \<in> cutPaths Mod Ty k. Q \<noteq> [] \<and> tl Q = R}
        \<longleftrightarrow> Q \<in> (\<lambda>X. X # R) ` {X \<in> set (Mod (nodeType Ty R)). nestingWithin Mod k (getObjectType (PType X))}" .
qed

lemma pathParents_cut:
  assumes f: "fullyDecomposable Mod d Ty"
  shows "pathParents Mod Ty (cutPaths Mod Ty k)
         = {R \<in> treePaths Mod Ty. \<not> nestingWithin Mod k (nodeType Ty R)
              \<and> nestingWithin Mod (Suc k) (nodeType Ty R)}"
proof (rule set_eqI, rule iffI)
  fix R assume "R \<in> pathParents Mod Ty (cutPaths Mod Ty k)"
  then obtain Q where q: "Q \<in> cutPaths Mod Ty k" "Q \<noteq> []" "R = tl Q"
    and c: "card {Q \<in> cutPaths Mod Ty k. Q \<noteq> [] \<and> tl Q = R} = length (Mod (nodeType Ty R))"
    by (auto simp add: pathParents_def)
  from q(2,3) obtain X where x: "Q = X # R" by (cases Q) auto
  from q(1) have "X # R \<in> cutPaths Mod Ty k" unfolding x .
  then have r: "R \<in> treePaths Mod Ty" and nk: "\<not> nestingWithin Mod k (nodeType Ty R)"
    by (simp_all add: cutPaths_def treePaths_Cons_iff)
  have dist: "distinct (Mod (nodeType Ty R))"
    using fullyDecomposable_node [OF r f] by (rule fullyDecomposable_distinct)
  have "card ((\<lambda>X. X # R) ` {X \<in> set (Mod (nodeType Ty R)). nestingWithin Mod k (getObjectType (PType X))})
        = length (Mod (nodeType Ty R))"
    using c by (simp only: cut_children [OF r nk])
  then have "card {X \<in> set (Mod (nodeType Ty R)). nestingWithin Mod k (getObjectType (PType X))}
        = length (Mod (nodeType Ty R))"
    by (simp add: card_image inj_on_def)
  then have "\<forall>X \<in> set (Mod (nodeType Ty R)). nestingWithin Mod k (getObjectType (PType X))"
    by (simp only: card_filter_distinct [OF dist])
  then have "nestingWithin Mod (Suc k) (nodeType Ty R)" by simp
  with r nk show "R \<in> {R \<in> treePaths Mod Ty. \<not> nestingWithin Mod k (nodeType Ty R)
              \<and> nestingWithin Mod (Suc k) (nodeType Ty R)}" by simp
next
  fix R assume "R \<in> {R \<in> treePaths Mod Ty. \<not> nestingWithin Mod k (nodeType Ty R)
              \<and> nestingWithin Mod (Suc k) (nodeType Ty R)}"
  then have r: "R \<in> treePaths Mod Ty" and nk: "\<not> nestingWithin Mod k (nodeType Ty R)"
    and sk: "\<forall>X \<in> set (Mod (nodeType Ty R)). nestingWithin Mod k (getObjectType (PType X))"
    by auto
  have dist: "distinct (Mod (nodeType Ty R))"
    using fullyDecomposable_node [OF r f] by (rule fullyDecomposable_distinct)
  from nk have "Mod (nodeType Ty R) \<noteq> []" using nestingWithin_leaf by blast
  then obtain X where x: "X \<in> set (Mod (nodeType Ty R))" by (cases "Mod (nodeType Ty R)") auto
  with sk r nk have "X # R \<in> cutPaths Mod Ty k"
    by (simp add: cutPaths_def treePaths_Cons_iff nodeType_Cons)
  then have mem: "R \<in> tl ` {Q \<in> cutPaths Mod Ty k. Q \<noteq> []}" by force
  have "card {X \<in> set (Mod (nodeType Ty R)). nestingWithin Mod k (getObjectType (PType X))}
        = length (Mod (nodeType Ty R))"
    using sk by (simp only: card_filter_distinct [OF dist])
  then have "card ((\<lambda>X. X # R) ` {X \<in> set (Mod (nodeType Ty R)). nestingWithin Mod k (getObjectType (PType X))})
        = length (Mod (nodeType Ty R))"
    by (simp add: card_image inj_on_def)
  then have "card {Q \<in> cutPaths Mod Ty k. Q \<noteq> [] \<and> tl Q = R} = length (Mod (nodeType Ty R))"
    by (simp only: cut_children [OF r nk])
  with mem show "R \<in> pathParents Mod Ty (cutPaths Mod Ty k)" by (simp add: pathParents_def)
qed


lemma mem_cutPaths:
  "Q \<in> cutPaths Mod Ty k \<longleftrightarrow>
     Q \<in> treePaths Mod Ty \<and> nestingWithin Mod k (nodeType Ty Q) \<and>
     (Q = [] \<or> \<not> nestingWithin Mod k (nodeType Ty (tl Q)))"
  by (simp add: cutPaths_def)

lemma cutPaths_Suc:
  assumes f: "fullyDecomposable Mod d Ty"
  shows "pathStep Mod Ty (cutPaths Mod Ty k) = cutPaths Mod Ty (Suc k)"
proof (rule set_eqI)
  fix Q
  define PP where "PP = {R \<in> treePaths Mod Ty. \<not> nestingWithin Mod k (nodeType Ty R)
              \<and> nestingWithin Mod (Suc k) (nodeType Ty R)}"
  have pp: "R \<in> PP \<longleftrightarrow> R \<in> treePaths Mod Ty \<and> \<not> nestingWithin Mod k (nodeType Ty R)
              \<and> nestingWithin Mod (Suc k) (nodeType Ty R)" for R
    unfolding PP_def by blast
  have step: "Q \<in> pathStep Mod Ty (cutPaths Mod Ty k)
        \<longleftrightarrow> (Q \<in> cutPaths Mod Ty k \<and> \<not> (Q \<noteq> [] \<and> tl Q \<in> PP)) \<or> Q \<in> PP"
    unfolding pathStep_def pathParents_cut [OF f] PP_def by blast
  have up: "nestingWithin Mod k T \<Longrightarrow> nestingWithin Mod (Suc k) T" for T
    by (rule nestingWithin_Suc)
  show "Q \<in> pathStep Mod Ty (cutPaths Mod Ty k) \<longleftrightarrow> Q \<in> cutPaths Mod Ty (Suc k)"
  proof (cases Q)
    case Nil
    have l: "[] \<in> cutPaths Mod Ty k \<longleftrightarrow> nestingWithin Mod k (nodeType Ty [])"
      by (simp add: mem_cutPaths treePaths.top del: nestingWithin.simps)
    have r: "[] \<in> cutPaths Mod Ty (Suc k) \<longleftrightarrow> nestingWithin Mod (Suc k) (nodeType Ty [])"
      by (simp add: mem_cutPaths treePaths.top del: nestingWithin.simps)
    have m: "[] \<in> PP \<longleftrightarrow> \<not> nestingWithin Mod k (nodeType Ty [])
              \<and> nestingWithin Mod (Suc k) (nodeType Ty [])"
      by (simp add: pp treePaths.top del: nestingWithin.simps)
    have "[] \<in> pathStep Mod Ty (cutPaths Mod Ty k) \<longleftrightarrow> [] \<in> cutPaths Mod Ty k \<or> [] \<in> PP"
      using step Nil by simp
    then show ?thesis unfolding Nil l r m using up [of "nodeType Ty []"] by blast
  next
    case (Cons X R)
    define a where "a = nestingWithin Mod k (getObjectType (PType X))"
    define a' where "a' = nestingWithin Mod (Suc k) (getObjectType (PType X))"
    define b where "b = nestingWithin Mod k (nodeType Ty R)"
    define b' where "b' = nestingWithin Mod (Suc k) (nodeType Ty R)"
    have aa: "a \<Longrightarrow> a'" unfolding a_def a'_def by (rule up)
    have bb: "b \<Longrightarrow> b'" unfolding b_def b'_def by (rule up)
    have ba: "b' \<Longrightarrow> X \<in> set (Mod (nodeType Ty R)) \<Longrightarrow> a" unfolding a_def b'_def by simp
    have l: "X # R \<in> cutPaths Mod Ty k \<longleftrightarrow>
               R \<in> treePaths Mod Ty \<and> X \<in> set (Mod (nodeType Ty R)) \<and> a \<and> \<not> b"
      unfolding a_def b_def
      by (simp add: mem_cutPaths treePaths_Cons_iff nodeType_Cons del: nestingWithin.simps)
    have r: "X # R \<in> cutPaths Mod Ty (Suc k) \<longleftrightarrow>
               R \<in> treePaths Mod Ty \<and> X \<in> set (Mod (nodeType Ty R)) \<and> a' \<and> \<not> b'"
      unfolding a'_def b'_def
      by (simp add: mem_cutPaths treePaths_Cons_iff nodeType_Cons del: nestingWithin.simps)
    have m1: "X # R \<in> PP \<longleftrightarrow>
               R \<in> treePaths Mod Ty \<and> X \<in> set (Mod (nodeType Ty R)) \<and> \<not> a \<and> a'"
      unfolding a_def a'_def
      by (simp add: pp treePaths_Cons_iff nodeType_Cons del: nestingWithin.simps)
    have m2: "R \<in> PP \<longleftrightarrow> R \<in> treePaths Mod Ty \<and> \<not> b \<and> b'"
      unfolding b_def b'_def by (rule pp)
    have "X # R \<in> pathStep Mod Ty (cutPaths Mod Ty k)
          \<longleftrightarrow> (X # R \<in> cutPaths Mod Ty k \<and> R \<notin> PP) \<or> X # R \<in> PP"
      using step Cons by simp
    then show ?thesis unfolding Cons l r m1 m2 using aa bb ba by blast
  qed
qed

lemma cutPaths_0:
  "cutPaths Mod Ty 0 = {Q \<in> treePaths Mod Ty. Mod (nodeType Ty Q) = []}"
proof (rule set_eqI)
  fix Q
  show "Q \<in> cutPaths Mod Ty 0 \<longleftrightarrow> Q \<in> {Q \<in> treePaths Mod Ty. Mod (nodeType Ty Q) = []}"
  proof (cases Q)
    case Nil
    then show ?thesis by (simp add: mem_cutPaths)
  next
    case (Cons X R)
    then show ?thesis by (auto simp add: mem_cutPaths treePaths_Cons_iff)
  qed
qed

lemma cutPaths_top:
  assumes w: "nestingWithin Mod d Ty" and le: "d \<le> k"
  shows "cutPaths Mod Ty k = {[]}"
proof (rule set_eqI)
  fix Q
  have wk: "nestingWithin Mod k (nodeType Ty R)" if "R \<in> treePaths Mod Ty" for R
    using nestingWithin_mono [OF nestingWithin_node [OF that w] le] .
  show "Q \<in> cutPaths Mod Ty k \<longleftrightarrow> Q \<in> {[]}"
  proof (cases Q)
    case Nil
    then show ?thesis using wk [OF treePaths.top]
      by (simp add: mem_cutPaths treePaths.top del: nestingWithin.simps)
  next
    case (Cons X R)
    then show ?thesis using wk [of R]
      by (auto simp add: mem_cutPaths treePaths_Cons_iff simp del: nestingWithin.simps)
  qed
qed

lemma cutPaths_stable:
  assumes f: "fullyDecomposable Mod d Ty" and e: "cutPaths Mod Ty (Suc k) = cutPaths Mod Ty k"
  shows "cutPaths Mod Ty (k + j) = cutPaths Mod Ty k"
proof (induction j)
  case 0
  show ?case by simp
next
  case (Suc j)
  have "cutPaths Mod Ty (k + Suc j) = pathStep Mod Ty (cutPaths Mod Ty (k + j))"
    using cutPaths_Suc [OF f, of "k + j"] by simp
  also have "\<dots> = pathStep Mod Ty (cutPaths Mod Ty k)" by (simp only: Suc.IH)
  also have "\<dots> = cutPaths Mod Ty (Suc k)" by (rule cutPaths_Suc [OF f])
  also have "\<dots> = cutPaths Mod Ty k" by (rule e)
  finally show ?case .
qed

lemma reduceLoop_cut:
  assumes f: "fullyDecomposable Mod d Ty" and p: "Path L = Some P" and t: "getType L = Inr Ty"
  shows "reduceLoop Mod L (node L ` cutPaths Mod Ty k) = Some {L}"
proof (induction "d - k" arbitrary: k rule: less_induct)
  case less
  have w: "nestingWithin Mod d Ty" using f by (rule fullyDecomposable_nesting)
  have step: "reduceStep Mod L (node L ` cutPaths Mod Ty k) = node L ` cutPaths Mod Ty (Suc k)"
    by (simp only: reduceStep_node [OF p t] cutPaths_Suc [OF f])
  have unfold: "reduceLoop Mod L (node L ` cutPaths Mod Ty k)
        = (if node L ` cutPaths Mod Ty (Suc k) = node L ` cutPaths Mod Ty k
           then Some (node L ` cutPaths Mod Ty k)
           else reduceLoop Mod L (node L ` cutPaths Mod Ty (Suc k)))"
    by (subst reduceLoop.simps) (simp only: step Let_def)
  show ?case
  proof (cases "node L ` cutPaths Mod Ty (Suc k) = node L ` cutPaths Mod Ty k")
    case True
    have "inj (node L)" by (rule inj_node [OF p])
    with True have "cutPaths Mod Ty (Suc k) = cutPaths Mod Ty k"
      by (simp only: inj_image_eq_iff)
    from cutPaths_stable [OF f this, of d] have "cutPaths Mod Ty k = cutPaths Mod Ty (k + d)"
      by simp
    also have "\<dots> = {[]}" by (rule cutPaths_top [OF w]) simp
    finally have "node L ` cutPaths Mod Ty k = {L}" using p by (simp add: node_Nil)
    with True unfold show ?thesis by simp
  next
    case False
    have "k < d"
    proof (rule ccontr)
      assume "\<not> k < d"
      then have "cutPaths Mod Ty k = {[]}" "cutPaths Mod Ty (Suc k) = {[]}"
        using cutPaths_top [OF w] by simp_all
      with False show False by simp
    qed
    then have "d - Suc k < d - k" by simp
    from less [OF this] False unfold show ?thesis by simp
  qed
qed


text \<open>
  C3: for a valid location of the kind \<open>NormalKey\<close> whose type is fully decomposable within
  \<open>d\<close> levels, and a depth guard beyond \<open>d\<close>, \<^verbatim>\<open>expand\<close> produces a list of locations, and
  \<^verbatim>\<open>reduce\<close>, applied to the set of these locations with the location as base, terminates and
  yields exactly the singleton set of the location.
\<close>

theorem reduce_expand_roundtrip:
  assumes v: "isValid L" and kind: "Kind L = NormalKey"
    and f: "fullyDecomposableLocation Mod d L" and g: "d < guard"
  shows "\<exists>Locs. expand guard Mod L = Inr Locs \<and> reduce Mod L (set Locs) = Some (Inr {L})"
proof -
  from v obtain P where p: "Path L = Some P" by (auto simp add: isValid_def)
  from f obtain Ty where t: "getType L = Inr Ty" and fd: "fullyDecomposable Mod d Ty"
    by (auto simp add: fullyDecomposableLocation_def split: sum.splits)
  from g obtain d' where d': "guard = Suc d'" "d \<le> d'" by (cases guard) auto
  have "nestingWithin Mod d' Ty"
    using fullyDecomposable_nesting [OF fd] d'(2) by (rule nestingWithin_mono)
  from expand_leaves [OF p t this] d'(1) obtain Locs where
    ex: "expand guard Mod L = Inr Locs"
    and ls: "set Locs = node L ` {Q \<in> treePaths Mod Ty. Mod (nodeType Ty Q) = []}"
    by auto
  have s0: "set Locs = node L ` cutPaths Mod Ty 0" unfolding ls cutPaths_0 ..
  have "\<not> (\<exists>X \<in> set Locs. Base X \<noteq> Base L)" unfolding s0 by (auto simp add: Base_node)
  then have "reduce Mod L (set Locs) = map_option Inr (reduceLoop Mod L (set Locs))"
    unfolding reduce_def by (simp only: if_False)
  also have "\<dots> = Some (Inr {L})"
    unfolding s0 by (simp add: reduceLoop_cut [OF fd p t])
  finally show ?thesis using ex by blast
qed

theorem reduce_expand_roundtrip_witness:
  "expand (Suc (Suc (Suc 0))) toyModule wholeA = Inr [leafAX, leafAY, leafB]
   \<and> reduce toyModule wholeA (set [leafAX, leafAY, leafB]) = Some (Inr {wholeA})"
proof -
  have "Kind wholeA = NormalKey" by (simp add: wholeA_def MemLocation_of_def)
  from reduce_expand_roundtrip [OF isValid_wholeA this fullyDecomposable_wholeA, of "Suc (Suc (Suc 0))"]
  obtain Locs where e: "expand (Suc (Suc (Suc 0))) toyModule wholeA = Inr Locs"
    and r: "reduce toyModule wholeA (set Locs) = Some (Inr {wholeA})" by auto
  from e [unfolded expand_wholeA] have l: "Locs = [leafAX, leafAY, leafB]" by simp
  show ?thesis by (rule conjI [OF expand_wholeA r [unfolded l]])
qed


end
